theory Spec2Isabelle
  imports Complex_Main "HOL-Library.Sublist"
begin

section \<open>Values, exceptions and the persisted feed file\<close>

text \<open>
  The program is \<^verbatim>\<open>src/v4vapp_hive_pricefeed/pricefeed.py\<close>; the older \<^verbatim>\<open>src/pricefeed.py\<close>
  has the same \<^verbatim>\<open>price_feed_update_needed\<close>, line for line. Python floats are modelled
  by exact rationals: a comparison such as \<^verbatim>\<open>abs(per_diff) < 0.02\<close> is read as a comparison
  with \<open>2 / 100\<close>, and neither rounding nor \<^verbatim>\<open>nan\<close>/\<^verbatim>\<open>inf\<close> is represented.

  \<open>json\<close> is what \<^verbatim>\<open>json.load\<close> returns: \<^verbatim>\<open>None\<close>, a bool, a number, a string, a list
  or a dict. A dict is the list of the document's members in order; a later member with
  the same key replaces an earlier one, as in Python.
\<close>

datatype json =
    JNull
  | JBool bool
  | JNum rat
  | JStr string
  | JArr "json list"
  | JObj "(string \<times> json) list"

text \<open>
  The exception classes that the program raises, catches or can meet. \<open>ValueError\<close> and
  \<open>RPCNodeException\<close> carry their \<^verbatim>\<open>args\<close> (message strings), which the handlers of
  \<^verbatim>\<open>publish_feed\<close> inspect. \<open>JSONDecodeError\<close> is a subclass of \<^verbatim>\<open>ValueError\<close>.
  \<open>OtherError\<close> stands for any other subclass of \<^verbatim>\<open>Exception\<close>, for example
  \<^verbatim>\<open>httpx.ConnectTimeout\<close>. Exceptions outside \<^verbatim>\<open>Exception\<close> (\<^verbatim>\<open>KeyboardInterrupt\<close>,
  \<^verbatim>\<open>CancelledError\<close>) are not modelled.
\<close>

datatype exn =
    HiveKeyError
  | V4VApiError
  | ConnectError
  | ReadTimeout
  | TimeoutError
  | ValueError "string list"
  | JSONDecodeError
  | AssertionError
  | RPCNodeException "string list"
  | KeyError
  | TypeError
  | AttributeError
  | ZeroDivisionError
  | OverflowError
  | OSError
  | OtherError

text \<open>
  What the decision function finds when it looks for \<^verbatim>\<open>price_feed.json\<close>:
  \<^verbatim>\<open>os.path.isfile\<close> is false; \<^verbatim>\<open>open\<close> raises; \<^verbatim>\<open>json.load\<close> raises; or
  \<^verbatim>\<open>json.load\<close> returns a value.
\<close>

datatype file_state =
    NoFile
  | Unreadable
  | NotJson
  | Parsed json

text \<open>Log lines and other observable actions, in the order they happen.\<close>

datatype event =
    Info_unchanged
  | Info_needs_update
  | Error_checking_old_feed exn
  | Info_trying_to_publish
  | Broadcast string rat
  | Info_published
  | File_written rat rat
  | Error_api
  | Error_not_base58
  | Error_another_key_error
  | Error_no_authority
  | Error_logged exn
  | Exception_logged exn
  | Error_connecting nat nat
  | Sleep nat
  | Error_failures_stop

text \<open>Python truthiness, as used by \<^verbatim>\<open>if prev_base and prev_timestamp\<close>.\<close>

fun truthy :: "json \<Rightarrow> bool" where
  "truthy JNull = False"
| "truthy (JBool b) = b"
| "truthy (JNum x) = (x \<noteq> 0)"
| "truthy (JStr s) = (s \<noteq> [])"
| "truthy (JArr xs) = (xs \<noteq> [])"
| "truthy (JObj kvs) = (kvs \<noteq> [])"

text \<open>\<^verbatim>\<open>d.get(k)\<close>: only a dict has the method; a missing key gives \<^verbatim>\<open>None\<close>.\<close>

fun py_get :: "json \<Rightarrow> string \<Rightarrow> exn + json" where
  "py_get (JObj kvs) k = Inr (case map_of (rev kvs) k of None \<Rightarrow> JNull | Some v \<Rightarrow> v)"
| "py_get _ k = Inl AttributeError"

text \<open>\<^verbatim>\<open>d[k]\<close> with a string key: \<^verbatim>\<open>KeyError\<close> on a dict without the key,
  \<^verbatim>\<open>TypeError\<close> on anything that is not a dict.\<close>

fun py_item :: "json \<Rightarrow> string \<Rightarrow> exn + json" where
  "py_item (JObj kvs) k = (case map_of (rev kvs) k of None \<Rightarrow> Inl KeyError | Some v \<Rightarrow> Inr v)"
| "py_item _ k = Inl TypeError"

text \<open>The numbers of Python arithmetic: ints, floats and bools (\<^verbatim>\<open>True == 1\<close>).\<close>

fun as_num :: "json \<Rightarrow> rat option" where
  "as_num (JNum x) = Some x"
| "as_num (JBool b) = Some (if b then 1 else 0)"
| "as_num _ = None"

definition py_sub :: "json \<Rightarrow> json \<Rightarrow> exn + rat" where
  "py_sub a b =
     (case as_num a of None \<Rightarrow> Inl TypeError
      | Some x \<Rightarrow> (case as_num b of None \<Rightarrow> Inl TypeError | Some y \<Rightarrow> Inr (x - y)))"

definition py_add :: "json \<Rightarrow> json \<Rightarrow> exn + rat" where
  "py_add a b =
     (case as_num a of None \<Rightarrow> Inl TypeError
      | Some x \<Rightarrow> (case as_num b of None \<Rightarrow> Inl TypeError | Some y \<Rightarrow> Inr (x + y)))"

definition py_truediv :: "rat \<Rightarrow> rat \<Rightarrow> exn + rat" where
  "py_truediv x y = (if y = 0 then Inl ZeroDivisionError else Inr (x / y))"

text \<open>\<^verbatim>\<open>int(x)\<close> on a float truncates towards zero.\<close>

definition py_int :: "rat \<Rightarrow> int" where
  "py_int x = (if 0 \<le> x then \<lfloor>x\<rfloor> else \<lceil>x\<rceil>)"

text \<open>
  \<^verbatim>\<open>timedelta(seconds=n)\<close> normalises to days and seconds and raises \<^verbatim>\<open>OverflowError\<close>
  when the days leave \<open>\<plusminus>999999999\<close>; the result is kept as its \<^verbatim>\<open>total_seconds()\<close>.
\<close>

definition timedelta :: "int \<Rightarrow> exn + int" where
  "timedelta n = (if \<bar>n div 86400\<bar> > 999999999 then Inl OverflowError else Inr n)"

section \<open>The decision function\<close>

text \<open>\<^verbatim>\<open>per_diff = abs(base - prev_base) / ((base + prev_base) / 2)\<close>\<close>

definition per_diff_of :: "json \<Rightarrow> json \<Rightarrow> exn + rat" where
  "per_diff_of base prev_base =
     (case py_sub base prev_base of Inl e \<Rightarrow> Inl e
      | Inr d \<Rightarrow>
          (case py_add base prev_base of Inl e \<Rightarrow> Inl e
           | Inr s \<Rightarrow> py_truediv \<bar>d\<bar> (s / 2)))"

text \<open>\<^verbatim>\<open>quote_timediff = timedelta(seconds=int(datetime.utcnow().timestamp() - prev_timestamp))\<close>\<close>

definition quote_timediff_of :: "rat \<Rightarrow> json \<Rightarrow> exn + int" where
  "quote_timediff_of now prev_timestamp =
     (case as_num prev_timestamp of None \<Rightarrow> Inl TypeError
      | Some ts \<Rightarrow> timedelta (py_int (now - ts)))"

text \<open>
  The body of the \<^verbatim>\<open>try\<close> in \<^verbatim>\<open>price_feed_update_needed\<close>: it raises, or it returns
  \<^verbatim>\<open>False\<close> from inside (\<open>Some False\<close>), or it falls through to the final
  \<^verbatim>\<open>return True\<close> (\<open>None\<close>); the events are its log lines.
\<close>

definition update_needed_body :: "file_state \<Rightarrow> rat \<Rightarrow> json \<Rightarrow> exn + (event list \<times> bool option)" where
  "update_needed_body fs now base =
     (case fs of
        NoFile \<Rightarrow> Inr ([], None)
      | Unreadable \<Rightarrow> Inl OSError
      | NotJson \<Rightarrow> Inl JSONDecodeError
      | Parsed prev_ans \<Rightarrow>
          (case py_get prev_ans ''base'' of Inl e \<Rightarrow> Inl e
           | Inr prev_base \<Rightarrow>
          (case py_get prev_ans ''timestamp'' of Inl e \<Rightarrow> Inl e
           | Inr prev_timestamp \<Rightarrow>
             if truthy prev_base \<and> truthy prev_timestamp then
               (case per_diff_of base prev_base of Inl e \<Rightarrow> Inl e
                | Inr per_diff \<Rightarrow>
               (case quote_timediff_of now prev_timestamp of Inl e \<Rightarrow> Inl e
                | Inr quote_timediff \<Rightarrow>
                  if \<bar>per_diff\<bar> < 2 / 100 \<and> quote_timediff < 12 * 3600
                  then Inr ([Info_unchanged], Some False)
                  else Inr ([Info_needs_update], None)))
             else Inr ([], None))))"

text \<open>
  \<^verbatim>\<open>price_feed_update_needed(base)\<close>, with the file it reads and the clock as arguments.
  \<^verbatim>\<open>except Exception\<close> logs the problem and falls through to \<^verbatim>\<open>return True\<close>, so the
  function itself never raises: its result is a bool and its log lines.
\<close>

definition price_feed_update_needed :: "file_state \<Rightarrow> rat \<Rightarrow> json \<Rightarrow> bool \<times> event list" where
  "price_feed_update_needed fs now base =
     (case update_needed_body fs now base of
        Inl ex \<Rightarrow> (True, [Error_checking_old_feed ex])
      | Inr (evs, Some b) \<Rightarrow> (b, evs)
      | Inr (evs, None) \<Rightarrow> (True, evs))"

section \<open>One publish attempt\<close>

text \<open>
  What the outside world does during one call of \<^verbatim>\<open>publish_feed\<close>:
  \<^item> \<open>http\<close>: \<^verbatim>\<open>httpx.get\<close> raises, or returns a status code and a body, where the body
    is what \<^verbatim>\<open>resp.json()\<close> returns, or \<open>None\<close> when it is not JSON;
  \<^item> \<open>t_check\<close>: the clock read by \<^verbatim>\<open>price_feed_update_needed\<close>;
  \<^item> \<open>client_new\<close>: the exception raised by \<^verbatim>\<open>Client(keys=[...])\<close>, if any;
  \<^item> \<open>broadcast\<close>: the exception raised by \<^verbatim>\<open>client.broadcast_sync\<close>, or \<open>None\<close> when it
    returns a transaction;
  \<^item> \<open>file_write\<close>: the exception raised on opening \<^verbatim>\<open>price_feed.json\<close> for writing, if
    any (the file is then as it was; a write that fails half-way is not modelled);
  \<^item> \<open>t_write\<close>: the clock read for the new record.
\<close>

datatype http_result =
    Http_raises exn
  | Http_response nat "json option"

record cycle =
  http :: http_result
  t_check :: rat
  client_new :: "exn option"
  broadcast :: "exn option"
  file_write :: "exn option"
  t_write :: rat

text \<open>\<^verbatim>\<open>f"{base:.3f}"\<close>: numbers and bools format; a string raises \<^verbatim>\<open>ValueError\<close>, anything
  else \<^verbatim>\<open>TypeError\<close>. The amount is kept as a number.\<close>

fun format_3f :: "json \<Rightarrow> exn + rat" where
  "format_3f (JNum x) = Inr x"
| "format_3f (JBool b) = Inr (if b then 1 else 0)"
| "format_3f (JStr s) = Inl (ValueError [''Unknown format code''])"
| "format_3f _ = Inl TypeError"

text \<open>\<^verbatim>\<open>ex.args\<close>; a \<^verbatim>\<open>JSONDecodeError\<close> always carries its message.\<close>

fun args_of :: "exn \<Rightarrow> string list" where
  "args_of (ValueError as) = as"
| "args_of (RPCNodeException as) = as"
| "args_of JSONDecodeError = [''Expecting value'']"
| "args_of _ = []"

fun is_ValueError :: "exn \<Rightarrow> bool" where
  "is_ValueError (ValueError as) = True"
| "is_ValueError JSONDecodeError = True"
| "is_ValueError _ = False"

fun is_RPCNodeException :: "exn \<Rightarrow> bool" where
  "is_RPCNodeException (RPCNodeException as) = True"
| "is_RPCNodeException _ = False"

text \<open>
  The \<^verbatim>\<open>try\<close> block of \<^verbatim>\<open>publish_feed\<close>: the exception it raises (\<open>None\<close> when it runs to
  its end), the file afterwards, and the events. The lines up to
  \<^verbatim>\<open>base = rjson["v4vapp"]["Hive_HBD"]\<close> are \<open>fetch_base\<close>.
\<close>

definition fetch_base :: "cycle \<Rightarrow> (exn \<times> event list) + json" where
  "fetch_base c =
     (case http c of
        Http_raises e \<Rightarrow> Inl (e, [])
      | Http_response status_code body \<Rightarrow>
          if status_code = 200 then
            (case body of
               None \<Rightarrow> Inl (JSONDecodeError, [])
             | Some rjson \<Rightarrow>
                 (case py_item rjson ''v4vapp'' of Inl e \<Rightarrow> Inl (e, [])
                  | Inr v \<Rightarrow>
                      (case py_item v ''Hive_HBD'' of Inl e \<Rightarrow> Inl (e, [])
                       | Inr base \<Rightarrow> Inr base)))
          else Inl (V4VApiError, [Error_api]))"

definition publish_body :: "string \<Rightarrow> cycle \<Rightarrow> file_state \<Rightarrow> exn option \<times> file_state \<times> event list" where
  "publish_body publisher c fs =
     (case fetch_base c of
        Inl (e, evs) \<Rightarrow> (Some e, fs, evs)
      | Inr base \<Rightarrow>
          (case price_feed_update_needed fs (t_check c) base of
             (False, evs) \<Rightarrow> (None, fs, evs)
           | (True, evs) \<Rightarrow>
               (case client_new c of
                  Some e \<Rightarrow> (Some e, fs, evs)
                | None \<Rightarrow>
                    (case format_3f base of
                       Inl e \<Rightarrow> (Some e, fs, evs @ [Info_trying_to_publish])
                     | Inr amount \<Rightarrow>
                         (case broadcast c of
                            Some e \<Rightarrow>
                              (Some e, fs, evs @ [Info_trying_to_publish, Broadcast publisher amount])
                          | None \<Rightarrow>
                              (case file_write c of
                                 Some e \<Rightarrow>
                                   (Some e, fs,
                                    evs @ [Info_trying_to_publish, Broadcast publisher amount,
                                           Info_published])
                               | None \<Rightarrow>
                                   (None,
                                    Parsed (JObj [(''base'', base), (''timestamp'', JNum (t_write c))]),
                                    evs @ [Info_trying_to_publish, Broadcast publisher amount,
                                           Info_published, File_written amount (t_write c)])))))))"

text \<open>
  The \<^verbatim>\<open>except\<close> clauses of \<^verbatim>\<open>publish_feed\<close>, in the source's order. The conditions
  \<^verbatim>\<open>if ["..." in arg for arg in ex.args]\<close> test a list for emptiness, and are written so.
  The result is the exception that leaves \<^verbatim>\<open>publish_feed\<close> (\<open>None\<close>: it returns) and the
  log lines of the handler.
\<close>

definition publish_handlers :: "exn \<Rightarrow> exn option \<times> event list" where
  "publish_handlers ex =
     (if is_ValueError ex then
        (if map (sublist ''Error loading Base58 object'') (args_of ex) \<noteq> []
         then (Some HiveKeyError, [Error_not_base58])
         else (Some HiveKeyError, [Error_logged ex]))
      else if ex = AssertionError then (Some HiveKeyError, [Error_another_key_error])
      else if is_RPCNodeException ex then
        (if map (sublist ''Missing Active Authority'') (args_of ex) \<noteq> []
         then (Some HiveKeyError, [Error_no_authority])
         else (None, [Error_logged ex]))
      else if ex \<in> {ConnectError, ReadTimeout, V4VApiError, TimeoutError}
        then (Some ex, [Error_logged ex])
      else (Some ex, [Exception_logged ex, Error_logged ex]))"

definition publish_feed :: "string \<Rightarrow> cycle \<Rightarrow> file_state \<Rightarrow> exn option \<times> file_state \<times> event list" where
  "publish_feed publisher c fs =
     (case publish_body publisher c fs of
        (None, fs', evs) \<Rightarrow> (None, fs', evs)
      | (Some ex, fs', evs) \<Rightarrow>
          (case publish_handlers ex of (r, hevs) \<Rightarrow> (r, fs', evs @ hevs)))"

section \<open>The publishing loop\<close>

text \<open>
  The state of \<^verbatim>\<open>keep_publishing_price_feed\<close>: the counter \<^verbatim>\<open>errors\<close>, the file, the events
  so far, and the number of calls of \<^verbatim>\<open>publish_feed\<close> made (\<open>attempts\<close>, which is not a
  variable of the program).
\<close>

record sched =
  errors :: nat
  feed_file :: file_state
  trace :: "event list"
  attempts :: nat

datatype status = RUNNING | STOPPED

definition failure_stop :: nat where
  "failure_stop = 20"

definition sleep_time :: "nat \<Rightarrow> nat" where
  "sleep_time errs = 10 + 5 * errs ^ 2"

text \<open>The \<^verbatim>\<open>finally\<close> clause: it runs on every path, also after the \<^verbatim>\<open>break\<close> of the
  \<^verbatim>\<open>HiveKeyError\<close> handler. The bool says whether the loop is left.\<close>

definition finally_clause :: "bool \<times> nat \<times> event list \<Rightarrow> bool \<times> nat \<times> event list" where
  "finally_clause r =
     (case r of (brk, errs, evs) \<Rightarrow>
        if errs > failure_stop - 1 then (True, errs, evs @ [Error_failures_stop])
        else (brk, errs, evs))"

text \<open>One pass through the body of \<^verbatim>\<open>while True\<close>.\<close>

definition iteration :: "string \<Rightarrow> cycle \<Rightarrow> sched \<Rightarrow> bool \<times> sched" where
  "iteration publisher c s =
     (case publish_feed publisher c (feed_file s) of (r, fs', evs) \<Rightarrow>
        (case finally_clause
                (case r of
                   None \<Rightarrow> (False, 0, evs @ [Sleep (60 * 15)])
                 | Some ex \<Rightarrow>
                     if ex = HiveKeyError then (True, errors s + 1, evs)
                     else if ex \<in> {ConnectError, ReadTimeout, V4VApiError} then
                       (False, errors s + 1,
                        evs @ [Error_connecting (errors s + 1) (sleep_time (errors s)),
                               Sleep (sleep_time (errors s))])
                     else (False, errors s + 1, evs @ [Exception_logged ex]))
         of (brk, errs, evs') \<Rightarrow>
           (brk, \<lparr>errors = errs, feed_file = fs', trace = trace s @ evs', attempts = attempts s + 1\<rparr>)))"

text \<open>
  The loop, run against the cycles the outside world provides. It is \<open>STOPPED\<close> when a
  \<^verbatim>\<open>break\<close> was taken, and still \<open>RUNNING\<close> when the given cycles are used up. The
  publisher is the value of \<^verbatim>\<open>HIVE_WITNESS_NAME\<close>.
\<close>

fun loop :: "string \<Rightarrow> cycle list \<Rightarrow> sched \<Rightarrow> status \<times> sched" where
  "loop publisher [] s = (RUNNING, s)"
| "loop publisher (c # cs) s =
     (case iteration publisher c s of
        (True, s') \<Rightarrow> (STOPPED, s')
      | (False, s') \<Rightarrow> loop publisher cs s')"

definition keep_publishing_price_feed :: "string \<Rightarrow> cycle list \<Rightarrow> file_state \<Rightarrow> status \<times> sched" where
  "keep_publishing_price_feed publisher cs fs =
     loop publisher cs \<lparr>errors = 0, feed_file = fs, trace = [], attempts = 0\<rparr>"

text \<open>The durations of the sleeps in a trace, in order.\<close>

fun sleeps :: "event list \<Rightarrow> nat list" where
  "sleeps [] = []"
| "sleeps (Sleep n # evs) = n # sleeps evs"
| "sleeps (_ # evs) = sleeps evs"

text \<open>Whether a trace contains a write of \<^verbatim>\<open>price_feed.json\<close>.\<close>

fun has_write :: "event list \<Rightarrow> bool" where
  "has_write [] = False"
| "has_write (File_written a t # evs) = True"
| "has_write (_ # evs) = has_write evs"

text \<open>
  A cycle that the loop retries: \<^verbatim>\<open>publish_feed\<close> raises, and what it raises is not
  \<^verbatim>\<open>HiveKeyError\<close>.
\<close>

definition fails_retryably :: "string \<Rightarrow> cycle \<Rightarrow> file_state \<Rightarrow> bool" where
  "fails_retryably publisher c fs =
     (case fst (publish_feed publisher c fs) of None \<Rightarrow> False | Some ex \<Rightarrow> ex \<noteq> HiveKeyError)"

section \<open>Example inputs\<close>

text \<open>A record published at second 1000 with base 0.5.\<close>

definition prior_example :: file_state where
  "prior_example = Parsed (JObj [(''base'', JNum (1 / 2)), (''timestamp'', JNum 1000)])"

text \<open>
  Example cycles: a price of 0.4 fetched and published without trouble; the same with a
  read timeout of the price source; with a body that is not JSON; with a JSON body that
  lacks the price; with a node error on broadcast; with a missing-authority error on
  broadcast.
\<close>

definition ok_cycle :: cycle where
  "ok_cycle =
     \<lparr>http = Http_response 200 (Some (JObj [(''v4vapp'', JObj [(''Hive_HBD'', JNum (2 / 5))])])),
      t_check = 5000, client_new = None, broadcast = None, file_write = None,
      t_write = 5001\<rparr>"

definition timeout_cycle :: cycle where
  "timeout_cycle = ok_cycle\<lparr>http := Http_raises ReadTimeout\<rparr>"

definition not_json_cycle :: cycle where
  "not_json_cycle = ok_cycle\<lparr>http := Http_response 200 None\<rparr>"

definition missing_key_cycle :: cycle where
  "missing_key_cycle = ok_cycle\<lparr>http := Http_response 200 (Some (JObj []))\<rparr>"

definition rpc_error_cycle :: cycle where
  "rpc_error_cycle = ok_cycle\<lparr>broadcast := Some (RPCNodeException [''Internal Error''])\<rparr>"

definition no_authority_cycle :: cycle where
  "no_authority_cycle =
     ok_cycle\<lparr>broadcast := Some (RPCNodeException [''Missing Active Authority brianoflondon''])\<rparr>"

section \<open>Properties of the decision function\<close>

lemmas decision_defs = price_feed_update_needed_def update_needed_body_def per_diff_of_def
  py_sub_def py_add_def py_truediv_def quote_timediff_of_def timedelta_def

lemma py_int_less_iff: "0 < k \<Longrightarrow> py_int x < k \<longleftrightarrow> x < of_int k"
  unfolding py_int_def
  by (auto simp: floor_less_iff ceiling_less_iff)

lemma py_int_lower: "of_int k \<le> x \<Longrightarrow> k \<le> 0 \<Longrightarrow> k \<le> py_int x"
  unfolding py_int_def
  by (auto simp: le_floor_iff le_ceiling_iff)

text \<open>
  C7, as the code has it. Whatever the price, an absent, unreadable or malformed record
  (not JSON, or JSON that is not an object) makes the function return true; the problem is
  logged when the record is unreadable or malformed, and nothing is logged when there is
  no file. The function returns a bool on every input: exceptions of its body are caught.
\<close>

theorem absent_or_malformed_forces_update:
  "price_feed_update_needed NoFile now base = (True, [])
   \<and> price_feed_update_needed Unreadable now base = (True, [Error_checking_old_feed OSError])
   \<and> price_feed_update_needed NotJson now base
        = (True, [Error_checking_old_feed JSONDecodeError])
   \<and> price_feed_update_needed (Parsed JNull) now base
        = (True, [Error_checking_old_feed AttributeError])
   \<and> price_feed_update_needed (Parsed (JBool b)) now base
        = (True, [Error_checking_old_feed AttributeError])
   \<and> price_feed_update_needed (Parsed (JNum x)) now base
        = (True, [Error_checking_old_feed AttributeError])
   \<and> price_feed_update_needed (Parsed (JStr s)) now base
        = (True, [Error_checking_old_feed AttributeError])
   \<and> price_feed_update_needed (Parsed (JArr xs)) now base
        = (True, [Error_checking_old_feed AttributeError])"
  by (simp add: price_feed_update_needed_def update_needed_body_def)

text \<open>C7 as stated fails where it says the problem is logged: with no file the log of
  the call is empty.\<close>

theorem absent_record_not_logged_counterexample:
  "snd (price_feed_update_needed NoFile 0 (JNum 1)) = []"
  by (simp add: price_feed_update_needed_def update_needed_body_def)

text \<open>
  C8. When the current price and the prior base sum to zero, the function returns true and
  raises nothing: either a prior field is falsy and the delta is never computed (as when
  both prices are 0), or the \<^verbatim>\<open>ZeroDivisionError\<close> of the division is caught by the
  function's own \<^verbatim>\<open>except Exception\<close> and logged.
\<close>

theorem zero_sum_forces_update:
  assumes "py_get prev_ans ''base'' = Inr (JNum pb)" and "c + pb = 0"
  shows "price_feed_update_needed (Parsed prev_ans) now (JNum c) = (True, [])
       \<or> price_feed_update_needed (Parsed prev_ans) now (JNum c)
            = (True, [Error_checking_old_feed ZeroDivisionError])"
  using assms by (cases prev_ans) (simp_all add: decision_defs)

theorem zero_sum_forces_update_witness:
  "price_feed_update_needed
     (Parsed (JObj [(''base'', JNum 0), (''timestamp'', JNum 1000)])) 2000 (JNum 0) = (True, [])
   \<and> price_feed_update_needed prior_example 2000 (JNum (- 1 / 2))
        = (True, [Error_checking_old_feed ZeroDivisionError])"
  using zero_sum_forces_update [of "JObj [(''base'', JNum 0), (''timestamp'', JNum 1000)]" 0 0 2000]
    zero_sum_forces_update [of "JObj [(''base'', JNum (1 / 2)), (''timestamp'', JNum 1000)]"
      "1 / 2" "- 1 / 2" 2000]
  by (simp add: prior_example_def decision_defs)

text \<open>
  C10. When the record is a JSON object whose \<^verbatim>\<open>base\<close> or \<^verbatim>\<open>timestamp\<close> is missing,
  null, 0 or otherwise falsy, the function does what it does with no file: it returns true
  with an empty log, so neither the delta nor the age was computed and nothing was raised.
\<close>

theorem falsy_field_like_absent:
  assumes "py_get (JObj kvs) ''base'' = Inr prev_base"
    and "py_get (JObj kvs) ''timestamp'' = Inr prev_timestamp"
    and "\<not> truthy prev_base \<or> \<not> truthy prev_timestamp"
  shows "price_feed_update_needed (Parsed (JObj kvs)) now base = (True, [])
       \<and> price_feed_update_needed NoFile now base = (True, [])"
  using assms by (auto simp: price_feed_update_needed_def update_needed_body_def)

theorem falsy_field_like_absent_witness:
  "price_feed_update_needed
     (Parsed (JObj [(''base'', JNum 0), (''timestamp'', JNum 1000)])) 2000 (JNum (2 / 5))
     = (True, [])
   \<and> price_feed_update_needed (Parsed (JObj [(''base'', JNum (1 / 2))])) 2000 (JNum (2 / 5))
        = (True, [])
   \<and> price_feed_update_needed
        (Parsed (JObj [(''base'', JNum (1 / 2)), (''timestamp'', JNull)])) 2000 (JNum (2 / 5))
        = (True, [])"
  using falsy_field_like_absent [of "[(''base'', JNum 0), (''timestamp'', JNum 1000)]"
      "JNum 0" "JNum 1000" 2000 "JNum (2 / 5)"]
    falsy_field_like_absent [of "[(''base'', JNum (1 / 2))]" "JNum (1 / 2)" JNull 2000
      "JNum (2 / 5)"]
    falsy_field_like_absent [of "[(''base'', JNum (1 / 2)), (''timestamp'', JNull)]"
      "JNum (1 / 2)" JNull 2000 "JNum (2 / 5)"]
  by simp

section \<open>Properties of one publish attempt\<close>

lemmas publish_defs = publish_feed_def publish_body_def fetch_base_def publish_handlers_def
lemmas loop_defs = iteration_def finally_clause_def failure_stop_def

lemmas example_defs = ok_cycle_def timeout_cycle_def not_json_cycle_def missing_key_cycle_def
  rpc_error_cycle_def no_authority_cycle_def prior_example_def

lemmas run_defs = keep_publishing_price_feed_def loop_defs publish_defs
  price_feed_update_needed_def update_needed_body_def sleep_time_def power2_eq_square

lemma sleeps_append: "sleeps (xs @ ys) = sleeps xs @ sleeps ys"
  by (induction xs rule: sleeps.induct) simp_all

lemma has_write_append: "has_write (xs @ ys) \<longleftrightarrow> has_write xs \<or> has_write ys"
  by (induction xs rule: has_write.induct) simp_all

lemma update_needed_quiet:
  "price_feed_update_needed fs now base = (b, evs) \<Longrightarrow> sleeps evs = [] \<and> \<not> has_write evs"
  by (auto simp: price_feed_update_needed_def update_needed_body_def
      split: sum.splits option.splits prod.splits file_state.splits if_splits)

lemma publish_handlers_quiet:
  "publish_handlers ex = (r, evs) \<Longrightarrow> sleeps evs = [] \<and> \<not> has_write evs"
  by (auto simp: publish_handlers_def split: if_splits)

lemma fetch_base_quiet:
  "fetch_base c = Inl (e, evs) \<Longrightarrow> sleeps evs = [] \<and> \<not> has_write evs"
  by (auto simp: fetch_base_def split: http_result.splits if_splits option.splits sum.splits)

lemma publish_body_cases:
  assumes "publish_body p c fs = (r, fs', evs)"
  shows "sleeps evs = [] \<and> (r \<noteq> None \<longrightarrow> fs' = fs \<and> \<not> has_write evs)"
proof (cases "fetch_base c")
  case (Inl a)
  obtain e fevs where a: "a = (e, fevs)" by (cases a)
  with Inl assms fetch_base_quiet [of c e fevs] show ?thesis
    by (auto simp: publish_body_def)
next
  case (Inr base)
  obtain b uevs where u: "price_feed_update_needed fs (t_check c) base = (b, uevs)"
    by (cases "price_feed_update_needed fs (t_check c) base")
  from update_needed_quiet [OF u] have q: "sleeps uevs = []" "\<not> has_write uevs" by simp_all
  from assms Inr u q show ?thesis
    by (auto simp: publish_body_def sleeps_append has_write_append
        split: bool.splits option.splits sum.splits)
qed

lemma publish_feed_cases:
  assumes "publish_feed p c fs = (r, fs', evs)"
  shows "sleeps evs = [] \<and> (r \<noteq> None \<longrightarrow> fs' = fs \<and> \<not> has_write evs)"
proof -
  obtain r0 fs0 evs0 where b: "publish_body p c fs = (r0, fs0, evs0)"
    by (cases "publish_body p c fs")
  note q = publish_body_cases [OF b]
  show ?thesis
  proof (cases r0)
    case None
    with assms b q show ?thesis by (simp add: publish_feed_def)
  next
    case (Some ex)
    obtain hr hevs where h: "publish_handlers ex = (hr, hevs)"
      by (cases "publish_handlers ex")
    from assms b q Some h publish_handlers_quiet [OF h] show ?thesis
      by (auto simp: publish_feed_def sleeps_append has_write_append)
  qed
qed

lemma publish_body_written:
  assumes "publish_body p c fs = (r, fs', evs)" and "fs' \<noteq> fs \<or> has_write evs"
  shows "broadcast c = None
       \<and> (\<exists>pre amount t. evs = pre @ [Broadcast p amount, Info_published, File_written amount t])"
proof (cases "fetch_base c")
  case (Inl a)
  obtain e fevs where a: "a = (e, fevs)" by (cases a)
  with Inl assms fetch_base_quiet [of c e fevs] show ?thesis
    by (auto simp: publish_body_def)
next
  case (Inr base)
  obtain b uevs where u: "price_feed_update_needed fs (t_check c) base = (b, uevs)"
    by (cases "price_feed_update_needed fs (t_check c) base")
  from update_needed_quiet [OF u] have q: "\<not> has_write uevs" by simp
  from assms Inr u q show ?thesis
    by (auto simp: publish_body_def has_write_append
        split: bool.splits option.splits sum.splits)
qed

text \<open>What the handlers of \<^verbatim>\<open>publish_feed\<close> make of a \<^verbatim>\<open>JSONDecodeError\<close> and of an
  \<^verbatim>\<open>RPCNodeException\<close>: the list built by the comprehension is empty only when
  \<^verbatim>\<open>ex.args\<close> is, whatever the messages say.\<close>

lemma publish_handlers_json_decode:
  "publish_handlers JSONDecodeError = (Some HiveKeyError, [Error_not_base58])"
  by (simp add: publish_handlers_def)

lemma publish_handlers_rpc:
  "publish_handlers (RPCNodeException as) =
     (if as \<noteq> [] then (Some HiveKeyError, [Error_no_authority])
      else (None, [Error_logged (RPCNodeException as)]))"
  by (simp add: publish_handlers_def)

text \<open>
  C6. In every call of \<^verbatim>\<open>publish_feed\<close>: when the broadcast raises, the file afterwards
  is the file before and the trace has no write; and when the file has changed or the
  trace has a write, the broadcast returned, and the trace ends with the broadcast, the
  log line of its success, and the write, in this order.
\<close>

theorem write_only_after_broadcast:
  assumes "publish_feed p c fs = (r, fs', evs)"
  shows "(broadcast c \<noteq> None \<longrightarrow> fs' = fs \<and> \<not> has_write evs)
       \<and> (fs' \<noteq> fs \<or> has_write evs \<longrightarrow>
            broadcast c = None
            \<and> (\<exists>pre amount t.
                 evs = pre @ [Broadcast p amount, Info_published, File_written amount t]))"
proof -
  obtain r0 fs0 evs0 where b: "publish_body p c fs = (r0, fs0, evs0)"
    by (cases "publish_body p c fs")
  show ?thesis
  proof (cases r0)
    case None
    with assms b have same: "fs' = fs0" "evs = evs0"
      by (simp_all add: publish_feed_def)
    from publish_body_written [OF b]
    have "fs0 \<noteq> fs \<or> has_write evs0 \<longrightarrow>
            broadcast c = None
            \<and> (\<exists>pre amount t.
                 evs0 = pre @ [Broadcast p amount, Info_published, File_written amount t])"
      by (rule impI)
    then show ?thesis
      unfolding same by (cases "broadcast c") simp_all
  next
    case (Some ex)
    obtain hr hevs where h: "publish_handlers ex = (hr, hevs)"
      by (cases "publish_handlers ex")
    from publish_body_cases [OF b] Some have "fs0 = fs" "\<not> has_write evs0"
      by simp_all
    moreover from assms b Some h have "fs' = fs0" "evs = evs0 @ hevs"
      by (simp_all add: publish_feed_def)
    moreover from publish_handlers_quiet [OF h] have "\<not> has_write hevs"
      by simp
    ultimately have "fs' = fs" "\<not> has_write evs"
      by (simp_all add: has_write_append)
    then show ?thesis by simp
  qed
qed

theorem write_only_after_broadcast_witness:
  "fst (snd (publish_feed ''brianoflondon'' rpc_error_cycle prior_example)) = prior_example
   \<and> \<not> has_write (snd (snd (publish_feed ''brianoflondon'' rpc_error_cycle prior_example)))
   \<and> (\<exists>pre amount t. snd (snd (publish_feed ''brianoflondon'' ok_cycle prior_example))
         = pre @ [Broadcast ''brianoflondon'' amount, Info_published, File_written amount t])"
proof -
  let ?x = "publish_feed ''brianoflondon'' rpc_error_cycle prior_example"
  let ?y = "publish_feed ''brianoflondon'' ok_cycle prior_example"
  have y: "fst (snd ?y) \<noteq> prior_example"
    by (simp add: example_defs publish_defs decision_defs py_int_def)
  from write_only_after_broadcast [of "''brianoflondon''" rpc_error_cycle prior_example
      "fst ?x" "fst (snd ?x)" "snd (snd ?x)"]
    write_only_after_broadcast [of "''brianoflondon''" ok_cycle prior_example
      "fst ?y" "fst (snd ?y)" "snd (snd ?y)"] y
  show ?thesis
    by (simp add: rpc_error_cycle_def)
qed

section \<open>Properties of the publishing loop\<close>

lemma iteration_returns:
  assumes "publish_feed p c (feed_file s) = (None, fs', evs)"
  shows "iteration p c s =
     (False, \<lparr>errors = 0, feed_file = fs', trace = trace s @ evs @ [Sleep 900],
              attempts = attempts s + 1\<rparr>)"
  using assms by (simp add: loop_defs)

lemma iteration_key_error:
  assumes "publish_feed p c (feed_file s) = (Some HiveKeyError, fs', evs)"
  shows "fst (iteration p c s)"
    and "errors (snd (iteration p c s)) = errors s + 1"
    and "attempts (snd (iteration p c s)) = attempts s + 1"
    and "feed_file (snd (iteration p c s)) = feed_file s"
    and "sleeps (trace (snd (iteration p c s))) = sleeps (trace s)"
  using assms publish_feed_cases [OF assms]
  by (simp_all add: loop_defs sleeps_append)

lemma iteration_raises:
  assumes "publish_feed p c (feed_file s) = (Some ex, fs', evs)" and "ex \<noteq> HiveKeyError"
  shows "fst (iteration p c s) \<longleftrightarrow> 19 \<le> errors s"
    and "errors (snd (iteration p c s)) = errors s + 1"
    and "attempts (snd (iteration p c s)) = attempts s + 1"
    and "feed_file (snd (iteration p c s)) = feed_file s"
    and "sleeps (trace (snd (iteration p c s))) =
           sleeps (trace s) @
             (if ex \<in> {ConnectError, ReadTimeout, V4VApiError} then [sleep_time (errors s)] else [])"
  using assms publish_feed_cases [OF assms(1)]
  by (auto simp: loop_defs sleeps_append)

lemma iteration_errors_zero_iff:
  "errors (snd (iteration p c s)) = 0 \<longleftrightarrow> fst (publish_feed p c (feed_file s)) = None"
proof -
  obtain r fs' evs where pf: "publish_feed p c (feed_file s) = (r, fs', evs)"
    by (cases "publish_feed p c (feed_file s)")
  show ?thesis
  proof (cases r)
    case None
    with pf iteration_returns [of p c s fs' evs] show ?thesis by simp
  next
    case (Some ex)
    show ?thesis
    proof (cases "ex = HiveKeyError")
      case True
      with pf Some iteration_key_error(2) [of p c s fs' evs] show ?thesis by simp
    next
      case False
      with pf Some iteration_raises(2) [of p c s ex fs' evs] show ?thesis by simp
    qed
  qed
qed

lemma loop_failures:
  assumes "\<forall>c\<in>set cs. fails_retryably p c (feed_file s)"
    and "errors s + length cs \<le> 19"
  shows "\<exists>s'. loop p (cs @ rest) s = loop p rest s' \<and> errors s' = errors s + length cs
           \<and> attempts s' = attempts s + length cs \<and> feed_file s' = feed_file s"
  using assms
proof (induction cs arbitrary: s)
  case Nil
  show ?case by (intro exI [of _ s]) simp
next
  case (Cons c cs)
  from Cons.prems(1) obtain ex fs' evs
    where pf: "publish_feed p c (feed_file s) = (Some ex, fs', evs)" and ex: "ex \<noteq> HiveKeyError"
    by (cases "publish_feed p c (feed_file s)")
       (auto simp: fails_retryably_def split: option.splits)
  let ?s1 = "snd (iteration p c s)"
  note it = iteration_raises [OF pf ex]
  from it(1) Cons.prems(2) have "\<not> fst (iteration p c s)" by simp
  then have step: "loop p ((c # cs) @ rest) s = loop p (cs @ rest) ?s1"
    by (cases "iteration p c s") auto
  from Cons.prems it have "\<forall>c\<in>set cs. fails_retryably p c (feed_file ?s1)"
    and "errors ?s1 + length cs \<le> 19" by simp_all
  from Cons.IH [OF this] obtain s' where
    "loop p (cs @ rest) ?s1 = loop p rest s'" "errors s' = errors ?s1 + length cs"
    "attempts s' = attempts ?s1 + length cs" "feed_file s' = feed_file ?s1" by blast
  with step it show ?case by (intro exI [of _ s']) simp
qed

lemma publish_feed_fetch_fails:
  assumes "fetch_base c = Inl (e, fevs)"
  shows "publish_feed p c fs = (fst (publish_handlers e), fs, fevs @ snd (publish_handlers e))"
  using assms by (cases "publish_handlers e") (simp add: publish_feed_def publish_body_def)

lemma fetch_base_backoff:
  assumes "http c = Http_raises ConnectError \<or> http c = Http_raises ReadTimeout
           \<or> (\<exists>st body. http c = Http_response st body \<and> st \<noteq> 200)"
  shows "\<exists>e fevs. fetch_base c = Inl (e, fevs) \<and> e \<in> {ConnectError, ReadTimeout, V4VApiError}"
  using assms by (auto simp: fetch_base_def)

lemma fetch_base_plain:
  assumes "http c = Http_raises TimeoutError \<or> http c = Http_raises OSError
           \<or> http c = Http_raises OtherError
           \<or> (\<exists>rjson e. http c = Http_response 200 (Some rjson) \<and> fetch_base c = Inl (e, []))"
  shows "\<exists>e fevs. fetch_base c = Inl (e, fevs)
           \<and> e \<in> {TimeoutError, OSError, OtherError, KeyError, TypeError}"
  using assms
proof (elim disjE exE conjE)
  fix rjson e
  assume h: "http c = Http_response 200 (Some rjson)" and f: "fetch_base c = Inl (e, [])"
  have "e = KeyError \<or> e = TypeError"
  proof (cases rjson)
    case (JObj kvs)
    with h f show ?thesis
      by (cases "map_of (rev kvs) ''v4vapp''"; cases "the (map_of (rev kvs) ''v4vapp'')")
         (auto simp: fetch_base_def split: option.splits)
  qed (use h f in \<open>auto simp: fetch_base_def\<close>)
  with f show ?thesis by auto
qed (auto simp: fetch_base_def)

text \<open>
  C2, as the code has it. A cycle in which \<^verbatim>\<open>httpx.get\<close> raises \<^verbatim>\<open>ConnectError\<close> or
  \<^verbatim>\<open>ReadTimeout\<close>, or answers with a status other than 200, adds one to the counter, sleeps
  \<open>10 + 5 * errors\<^sup>2\<close> seconds for the counter before the increment, leaves the file as
  it was, and leaves the loop exactly when the counter has reached \<open>failure_stop\<close>. A cycle
  in which \<^verbatim>\<open>httpx.get\<close> raises the builtin \<^verbatim>\<open>TimeoutError\<close>, an \<^verbatim>\<open>OSError\<close> or another
  exception, or in which the answer with status 200 is JSON from which the price cannot be
  read, does the same but does not sleep. Bodies that are not JSON and errors of the
  ledger node are left out of this statement.
\<close>

theorem transient_failures_retried:
  "(http c = Http_raises ConnectError \<or> http c = Http_raises ReadTimeout
      \<or> (\<exists>st body. http c = Http_response st body \<and> st \<noteq> 200) \<longrightarrow>
      errors (snd (iteration p c s)) = errors s + 1
      \<and> (fst (iteration p c s) \<longleftrightarrow> failure_stop \<le> errors s + 1)
      \<and> sleeps (trace (snd (iteration p c s))) = sleeps (trace s) @ [sleep_time (errors s)]
      \<and> feed_file (snd (iteration p c s)) = feed_file s)
   \<and> (http c = Http_raises TimeoutError \<or> http c = Http_raises OSError
      \<or> http c = Http_raises OtherError
      \<or> (\<exists>rjson e. http c = Http_response 200 (Some rjson) \<and> fetch_base c = Inl (e, [])) \<longrightarrow>
      errors (snd (iteration p c s)) = errors s + 1
      \<and> (fst (iteration p c s) \<longleftrightarrow> failure_stop \<le> errors s + 1)
      \<and> sleeps (trace (snd (iteration p c s))) = sleeps (trace s)
      \<and> feed_file (snd (iteration p c s)) = feed_file s)"
proof (intro conjI impI)
  assume "http c = Http_raises ConnectError \<or> http c = Http_raises ReadTimeout
      \<or> (\<exists>st body. http c = Http_response st body \<and> st \<noteq> 200)"
  from fetch_base_backoff [OF this] obtain e fevs
    where f: "fetch_base c = Inl (e, fevs)" and e: "e \<in> {ConnectError, ReadTimeout, V4VApiError}"
    by blast
  from e have h: "fst (publish_handlers e) = Some e" and ne: "e \<noteq> HiveKeyError"
    by (auto simp: publish_handlers_def)
  from publish_feed_fetch_fails [OF f, of p "feed_file s"] h
  have pf: "publish_feed p c (feed_file s) = (Some e, feed_file s, fevs @ snd (publish_handlers e))"
    by simp
  note it = iteration_raises [OF pf ne]
  from it e show "errors (snd (iteration p c s)) = errors s + 1"
    and "fst (iteration p c s) \<longleftrightarrow> failure_stop \<le> errors s + 1"
    and "sleeps (trace (snd (iteration p c s))) = sleeps (trace s) @ [sleep_time (errors s)]"
    and "feed_file (snd (iteration p c s)) = feed_file s"
    by (auto simp: failure_stop_def)
next
  assume "http c = Http_raises TimeoutError \<or> http c = Http_raises OSError
      \<or> http c = Http_raises OtherError
      \<or> (\<exists>rjson e. http c = Http_response 200 (Some rjson) \<and> fetch_base c = Inl (e, []))"
  from fetch_base_plain [OF this] obtain e fevs
    where f: "fetch_base c = Inl (e, fevs)"
      and e: "e \<in> {TimeoutError, OSError, OtherError, KeyError, TypeError}"
    by blast
  from e have h: "fst (publish_handlers e) = Some e" and ne: "e \<noteq> HiveKeyError"
    and nb: "e \<notin> {ConnectError, ReadTimeout, V4VApiError}"
    by (auto simp: publish_handlers_def)
  from publish_feed_fetch_fails [OF f, of p "feed_file s"] h
  have pf: "publish_feed p c (feed_file s) = (Some e, feed_file s, fevs @ snd (publish_handlers e))"
    by simp
  note it = iteration_raises [OF pf ne]
  from it nb show "errors (snd (iteration p c s)) = errors s + 1"
    and "fst (iteration p c s) \<longleftrightarrow> failure_stop \<le> errors s + 1"
    and "sleeps (trace (snd (iteration p c s))) = sleeps (trace s)"
    and "feed_file (snd (iteration p c s)) = feed_file s"
    by (auto simp: failure_stop_def)
qed

theorem transient_failures_retried_witness:
  "errors (snd (iteration ''brianoflondon'' timeout_cycle
      \<lparr>errors = 2, feed_file = NoFile, trace = [], attempts = 2\<rparr>)) = 3
   \<and> \<not> fst (iteration ''brianoflondon'' timeout_cycle
      \<lparr>errors = 2, feed_file = NoFile, trace = [], attempts = 2\<rparr>)
   \<and> sleeps (trace (snd (iteration ''brianoflondon'' timeout_cycle
      \<lparr>errors = 2, feed_file = NoFile, trace = [], attempts = 2\<rparr>))) = [30]
   \<and> errors (snd (iteration ''brianoflondon'' missing_key_cycle
      \<lparr>errors = 2, feed_file = NoFile, trace = [], attempts = 2\<rparr>)) = 3
   \<and> sleeps (trace (snd (iteration ''brianoflondon'' missing_key_cycle
      \<lparr>errors = 2, feed_file = NoFile, trace = [], attempts = 2\<rparr>))) = []"
  using transient_failures_retried [of timeout_cycle "''brianoflondon''"
      "\<lparr>errors = 2, feed_file = NoFile, trace = [], attempts = 2\<rparr>"]
    transient_failures_retried [of missing_key_cycle "''brianoflondon''"
      "\<lparr>errors = 2, feed_file = NoFile, trace = [], attempts = 2\<rparr>"]
  by (simp add: example_defs fetch_base_def failure_stop_def sleep_time_def power2_eq_square)

text \<open>
  C2 as stated fails at three cycles, each starting from a counter of zero: a price
  body that is not JSON stops the loop (its \<^verbatim>\<open>JSONDecodeError\<close> is a \<^verbatim>\<open>ValueError\<close>, which
  the first handler turns into \<^verbatim>\<open>HiveKeyError\<close>); a node error \<^verbatim>\<open>Internal Error\<close> on
  broadcast stops the loop; and a JSON body without the price is counted but not followed
  by any sleep.
\<close>

theorem transient_failures_counterexample:
  "fst (keep_publishing_price_feed ''brianoflondon'' [not_json_cycle, ok_cycle] NoFile) = STOPPED
   \<and> fst (keep_publishing_price_feed ''brianoflondon'' [rpc_error_cycle, ok_cycle] NoFile) = STOPPED
   \<and> sleeps (trace (snd (keep_publishing_price_feed ''brianoflondon'' [missing_key_cycle] NoFile)))
       = []"
  by (simp add: run_defs example_defs)

text \<open>
  C3, as the code has it. From a counter of zero, three cycles in a row in which the price
  source times out (\<^verbatim>\<open>httpx.ReadTimeout\<close>) sleep 10, 15 and 30 seconds, in this order:
  \<^verbatim>\<open>sleep_time\<close> is computed before \<^verbatim>\<open>errors += 1\<close>.
\<close>

theorem three_read_timeouts_sleeps:
  "sleeps (trace (snd (keep_publishing_price_feed p
      [c1\<lparr>http := Http_raises ReadTimeout\<rparr>, c2\<lparr>http := Http_raises ReadTimeout\<rparr>,
       c3\<lparr>http := Http_raises ReadTimeout\<rparr>] fs))) = [10, 15, 30]"
  by (simp add: run_defs)

text \<open>
  C3 as stated fails: the three sleeps are not 15, 30 and 55 seconds.
\<close>

theorem three_read_timeouts_counterexample:
  "sleeps (trace (snd (keep_publishing_price_feed ''brianoflondon''
      [timeout_cycle, timeout_cycle, timeout_cycle] NoFile))) \<noteq> [15, 30, 55]"
  by (simp add: run_defs example_defs)

lemma sleep_time_mono: "n < m \<Longrightarrow> sleep_time n < sleep_time m"
  by (simp add: sleep_time_def power_strict_mono)

text \<open>
  C9, as the code has it. When \<^verbatim>\<open>publish_feed\<close> raises one of the exceptions of the
  backoff handler (\<^verbatim>\<open>ConnectError\<close>, \<^verbatim>\<open>ReadTimeout\<close>, \<^verbatim>\<open>V4VApiError\<close>) while the counter
  holds \<open>n\<close>, the cycle sleeps exactly \<open>10 + 5 * n\<^sup>2\<close> seconds, for every \<open>n\<close> and so for
  0, 1, 2 and 3; and the duration is strictly increasing in \<open>n\<close>.
\<close>

theorem backoff_sleep_quadratic:
  assumes "publish_feed p c (feed_file s) = (Some ex, fs', evs)"
    and "ex \<in> {ConnectError, ReadTimeout, V4VApiError}"
  shows "sleeps (trace (snd (iteration p c s))) = sleeps (trace s) @ [10 + 5 * (errors s)\<^sup>2]
       \<and> (\<forall>n m. n < m \<longrightarrow> sleep_time n < sleep_time m)"
proof -
  from assms(2) have "ex \<noteq> HiveKeyError" by auto
  from iteration_raises(5) [OF assms(1) this] assms(2) sleep_time_mono
  show ?thesis by (auto simp: sleep_time_def)
qed

theorem backoff_sleep_quadratic_witness:
  "sleeps (trace (snd (iteration ''brianoflondon'' timeout_cycle
      \<lparr>errors = 3, feed_file = NoFile, trace = [], attempts = 3\<rparr>))) = [55]
   \<and> sleep_time 2 < sleep_time 3"
  using backoff_sleep_quadratic [of "''brianoflondon''" timeout_cycle
      "\<lparr>errors = 3, feed_file = NoFile, trace = [], attempts = 3\<rparr>" ReadTimeout NoFile
      "[Error_logged ReadTimeout]"]
  by (simp add: example_defs publish_defs)

text \<open>
  C9 as stated fails for the retryable failures that the generic handler takes: a
  price body without the price is retried, and with the counter at 2 the cycle sleeps
  nothing, not 30 seconds.
\<close>

theorem backoff_sleep_counterexample:
  "fails_retryably ''brianoflondon'' missing_key_cycle NoFile
   \<and> sleeps (trace (snd (iteration ''brianoflondon'' missing_key_cycle
         \<lparr>errors = 2, feed_file = NoFile, trace = [], attempts = 2\<rparr>))) \<noteq> [10 + 5 * 2\<^sup>2]"
  by (simp add: fails_retryably_def run_defs example_defs)

lemma publish_feed_key_error:
  assumes "fetch_base c = Inr base"
    and "fst (price_feed_update_needed fs (t_check c) base)"
    and "client_new c = Some ex
         \<or> (client_new c = None \<and> format_3f base = Inr amount \<and> broadcast c = Some ex)"
    and "(\<exists>as. ex = ValueError as)
         \<or> (\<exists>as. ex = RPCNodeException as \<and> (\<exists>a\<in>set as. sublist ''Missing Active Authority'' a))"
  shows "\<exists>evs. publish_feed p c fs = (Some HiveKeyError, fs, evs)"
proof -
  obtain uevs where u: "price_feed_update_needed fs (t_check c) base = (True, uevs)"
    using assms(2) by (cases "price_feed_update_needed fs (t_check c) base") auto
  from assms(3) assms(1) u obtain bevs where b: "publish_body p c fs = (Some ex, fs, bevs)"
    by (auto simp: publish_body_def)
  from assms(4) have "fst (publish_handlers ex) = Some HiveKeyError"
    by (auto simp: publish_handlers_def)
  with b show ?thesis
    by (cases "publish_handlers ex") (auto simp: publish_feed_def)
qed

text \<open>
  C5. A cycle that reaches the ledger client and meets a \<^verbatim>\<open>ValueError\<close> (the signing key
  is not valid Base58) or an \<^verbatim>\<open>RPCNodeException\<close> with a message containing
  \<^verbatim>\<open>Missing Active Authority\<close> ends the loop in that cycle, whatever the counter holds: one
  more attempt is made, none after it, nothing is slept and the file is as it was.
\<close>

theorem key_failure_stops:
  assumes "fetch_base c = Inr base"
    and "fst (price_feed_update_needed (feed_file s) (t_check c) base)"
    and "client_new c = Some ex
         \<or> (client_new c = None \<and> format_3f base = Inr amount \<and> broadcast c = Some ex)"
    and "(\<exists>as. ex = ValueError as)
         \<or> (\<exists>as. ex = RPCNodeException as \<and> (\<exists>a\<in>set as. sublist ''Missing Active Authority'' a))"
  shows "fst (loop p (c # rest) s) = STOPPED
       \<and> attempts (snd (loop p (c # rest) s)) = attempts s + 1
       \<and> feed_file (snd (loop p (c # rest) s)) = feed_file s
       \<and> sleeps (trace (snd (loop p (c # rest) s))) = sleeps (trace s)"
proof -
  from publish_feed_key_error [OF assms] obtain evs
    where pf: "publish_feed p c (feed_file s) = (Some HiveKeyError, feed_file s, evs)" by blast
  note it = iteration_key_error [OF pf]
  from it(1) have "loop p (c # rest) s = (STOPPED, snd (iteration p c s))"
    by (cases "iteration p c s") auto
  with it show ?thesis by simp
qed

lemma sublist_authority_example:
  "sublist ''Missing Active Authority'' ''Missing Active Authority brianoflondon''"
  unfolding sublist_def
  by (intro exI [of _ "[]"] exI [of _ "'' brianoflondon''"]) simp

theorem key_failure_stops_witness:
  "fst (loop ''brianoflondon'' [no_authority_cycle, ok_cycle]
          \<lparr>errors = 7, feed_file = NoFile, trace = [], attempts = 7\<rparr>) = STOPPED
   \<and> attempts (snd (loop ''brianoflondon'' [no_authority_cycle, ok_cycle]
          \<lparr>errors = 7, feed_file = NoFile, trace = [], attempts = 7\<rparr>)) = 8
   \<and> fst (loop ''brianoflondon''
          [ok_cycle\<lparr>broadcast := Some (ValueError [''Error loading Base58 object''])\<rparr>]
          \<lparr>errors = 0, feed_file = NoFile, trace = [], attempts = 0\<rparr>) = STOPPED"
  using key_failure_stops [of no_authority_cycle "JNum (2 / 5)"
      "\<lparr>errors = 7, feed_file = NoFile, trace = [], attempts = 7\<rparr>"
      "RPCNodeException [''Missing Active Authority brianoflondon'']" "2 / 5"
      "''brianoflondon''" "[ok_cycle]"]
    key_failure_stops [of "ok_cycle\<lparr>broadcast := Some (ValueError [''Error loading Base58 object''])\<rparr>"
      "JNum (2 / 5)" "\<lparr>errors = 0, feed_file = NoFile, trace = [], attempts = 0\<rparr>"
      "ValueError [''Error loading Base58 object'']" "2 / 5" "''brianoflondon''" "[]"]
    sublist_authority_example
  by (simp add: example_defs fetch_base_def price_feed_update_needed_def update_needed_body_def)

lemma loop_returns:
  assumes "fst (publish_feed p c (feed_file s)) = None"
  shows "\<exists>s'. loop p (c # rest) s = loop p rest s' \<and> errors s' = 0
           \<and> attempts s' = attempts s + 1
           \<and> feed_file s' = fst (snd (publish_feed p c (feed_file s)))"
proof -
  obtain fs' evs where pf: "publish_feed p c (feed_file s) = (None, fs', evs)"
    using assms by (cases "publish_feed p c (feed_file s)") auto
  let ?s' = "\<lparr>errors = 0, feed_file = fs', trace = trace s @ evs @ [Sleep 900],
              attempts = attempts s + 1\<rparr>"
  from iteration_returns [OF pf] pf show ?thesis
    by (intro exI [of _ ?s']) simp
qed

text \<open>
  C4. From any state of the loop, cycles in a row that fail retryably and bring the
  counter to 20 end the loop: whatever cycles would follow, the loop is \<open>STOPPED\<close> after
  exactly these attempts, with the counter at 20; from a counter of zero that is twenty
  cycles. After any smaller number \<open>k\<close> of them the loop goes on with the cycles that
  follow, the counter raised by \<open>k\<close>. A cycle in which \<^verbatim>\<open>publish_feed\<close> returns lets the
  loop go on with the counter at zero, whatever it was, so that the count starts again;
  and the counter is zero after a cycle exactly when \<^verbatim>\<open>publish_feed\<close> returned in it.
\<close>

theorem twenty_failures_stop:
  assumes "errors s + length cs = 20" and "cs \<noteq> []"
    and "\<forall>c\<in>set cs. fails_retryably p c (feed_file s)"
  shows "fst (loop p (cs @ rest) s) = STOPPED
       \<and> attempts (snd (loop p (cs @ rest) s)) = attempts s + length cs
       \<and> errors (snd (loop p (cs @ rest) s)) = 20
       \<and> (\<forall>k<length cs. \<exists>s'. loop p (take k cs @ tl_cs) s = loop p tl_cs s'
              \<and> errors s' = errors s + k \<and> attempts s' = attempts s + k
              \<and> feed_file s' = feed_file s)
       \<and> (\<forall>c' s0. fst (publish_feed p c' (feed_file s0)) = None \<longrightarrow>
              (\<exists>s1. loop p (c' # tl_cs) s0 = loop p tl_cs s1 \<and> errors s1 = 0
                 \<and> attempts s1 = attempts s0 + 1
                 \<and> feed_file s1 = fst (snd (publish_feed p c' (feed_file s0)))))
       \<and> (\<forall>c' s0. errors (snd (iteration p c' s0)) = 0
              \<longleftrightarrow> fst (publish_feed p c' (feed_file s0)) = None)"
proof -
  have before: "\<exists>s'. loop p (take k cs @ tl_cs) s = loop p tl_cs s'
      \<and> errors s' = errors s + k \<and> attempts s' = attempts s + k \<and> feed_file s' = feed_file s"
    if "k < length cs" for k tl_cs
  proof -
    from assms that have "\<forall>c\<in>set (take k cs). fails_retryably p c (feed_file s)"
      and "errors s + length (take k cs) \<le> 19"
      by (auto dest: in_set_takeD)
    from loop_failures [OF this, of tl_cs] that show ?thesis
      by auto
  qed
  from assms(2) have len: "length cs - 1 < length cs"
    by (cases cs) simp_all
  from assms(2) have split: "cs @ rest = take (length cs - 1) cs @ last cs # rest"
    by (metis append_butlast_last_id butlast_conv_take append.assoc append_Cons append_Nil)
  from before [OF len, of "last cs # rest"] obtain s' where
    s': "loop p (take (length cs - 1) cs @ last cs # rest) s = loop p (last cs # rest) s'"
      "errors s' = errors s + (length cs - 1)" "attempts s' = attempts s + (length cs - 1)"
      "feed_file s' = feed_file s"
    by blast
  from assms(1) len s'(2) have e19: "errors s' = 19"
    by simp
  from assms(2,3) s'(4) have "fails_retryably p (last cs) (feed_file s')"
    by simp
  then obtain ex fs' evs
    where pf: "publish_feed p (last cs) (feed_file s') = (Some ex, fs', evs)"
      and ex: "ex \<noteq> HiveKeyError"
    by (cases "publish_feed p (last cs) (feed_file s')")
       (auto simp: fails_retryably_def split: option.splits)
  note it = iteration_raises [OF pf ex]
  from it(1) e19 have "fst (iteration p (last cs) s')" by simp
  then have lp: "loop p (last cs # rest) s' = (STOPPED, snd (iteration p (last cs) s'))"
    by (cases "iteration p (last cs) s'") auto
  have run: "loop p (cs @ rest) s = (STOPPED, snd (iteration p (last cs) s'))"
    by (simp only: split s'(1) lp)
  have stop: "fst (loop p (cs @ rest) s) = STOPPED"
    and att: "attempts (snd (loop p (cs @ rest) s)) = attempts s + length cs"
    and err: "errors (snd (loop p (cs @ rest) s)) = 20"
    using run it(2,3) e19 s'(3) len by simp_all
  from stop att err before loop_returns [of p _ _ tl_cs] iteration_errors_zero_iff [of p]
  show ?thesis
    by blast
qed

text \<open>Nineteen timeouts, one published price, and twenty more timeouts: the loop stops at
  the fortieth attempt, not at the twentieth.\<close>

theorem twenty_failures_stop_witness:
  "fst (keep_publishing_price_feed ''brianoflondon''
          (replicate 19 timeout_cycle @ ok_cycle # replicate 20 timeout_cycle @ [ok_cycle]) NoFile)
     = STOPPED
   \<and> attempts (snd (keep_publishing_price_feed ''brianoflondon''
          (replicate 19 timeout_cycle @ ok_cycle # replicate 20 timeout_cycle @ [ok_cycle]) NoFile))
     = 40"
proof -
  let ?p = "''brianoflondon''"
  let ?s0 = "\<lparr>errors = 0, feed_file = NoFile, trace = [], attempts = 0\<rparr>"
  let ?cs = "replicate 20 timeout_cycle"
  let ?tl = "ok_cycle # replicate 20 timeout_cycle @ [ok_cycle]"
  have fails: "fails_retryably ?p timeout_cycle fs" for fs
    by (simp add: fails_retryably_def timeout_cycle_def ok_cycle_def publish_defs)
  have ok: "publish_feed ?p ok_cycle NoFile =
      (None, Parsed (JObj [(''base'', JNum (2 / 5)), (''timestamp'', JNum 5001)]),
       [Info_trying_to_publish, Broadcast ?p (2 / 5), Info_published, File_written (2 / 5) 5001])"
    by (simp add: ok_cycle_def publish_defs price_feed_update_needed_def update_needed_body_def)
  have "\<forall>k<length ?cs. \<exists>s'. loop ?p (take k ?cs @ ?tl) ?s0 = loop ?p ?tl s'
      \<and> errors s' = errors ?s0 + k \<and> attempts s' = attempts ?s0 + k
      \<and> feed_file s' = feed_file ?s0"
    using twenty_failures_stop [of ?s0 ?cs ?p "[]" ?tl] fails
    by (simp del: loop.simps)
  then have "\<exists>s'. loop ?p (take 19 ?cs @ ?tl) ?s0 = loop ?p ?tl s'
      \<and> errors s' = errors ?s0 + 19 \<and> attempts s' = attempts ?s0 + 19
      \<and> feed_file s' = feed_file ?s0"
    by (simp del: loop.simps)
  then obtain s' where s': "loop ?p (replicate 19 timeout_cycle @ ?tl) ?s0 = loop ?p ?tl s'"
    "errors s' = 19" "attempts s' = 19" "feed_file s' = NoFile"
    by (auto simp del: loop.simps)
  have "\<forall>c' s0. fst (publish_feed ?p c' (feed_file s0)) = None \<longrightarrow>
      (\<exists>s1. loop ?p (c' # ?cs @ [ok_cycle]) s0 = loop ?p (?cs @ [ok_cycle]) s1 \<and> errors s1 = 0
         \<and> attempts s1 = attempts s0 + 1
         \<and> feed_file s1 = fst (snd (publish_feed ?p c' (feed_file s0))))"
    using twenty_failures_stop [of ?s0 ?cs ?p "[]" "?cs @ [ok_cycle]"] fails
    by (simp del: loop.simps)
  then have "fst (publish_feed ?p ok_cycle (feed_file s')) = None \<longrightarrow>
      (\<exists>s1. loop ?p (ok_cycle # ?cs @ [ok_cycle]) s' = loop ?p (?cs @ [ok_cycle]) s1
         \<and> errors s1 = 0 \<and> attempts s1 = attempts s' + 1
         \<and> feed_file s1 = fst (snd (publish_feed ?p ok_cycle (feed_file s'))))"
    by blast
  then have "\<exists>s1. loop ?p (ok_cycle # ?cs @ [ok_cycle]) s' = loop ?p (?cs @ [ok_cycle]) s1
      \<and> errors s1 = 0 \<and> attempts s1 = attempts s' + 1
      \<and> feed_file s1 = fst (snd (publish_feed ?p ok_cycle (feed_file s')))"
    using s'(4) ok by (simp del: loop.simps)
  then obtain s1 where
    s1: "loop ?p ?tl s' = loop ?p (?cs @ [ok_cycle]) s1"
    "errors s1 = 0" "attempts s1 = 20"
    using s'(3) by (auto simp del: loop.simps)
  from twenty_failures_stop [of s1 ?cs ?p "[ok_cycle]"] s1(2,3) fails
  have "fst (loop ?p (?cs @ [ok_cycle]) s1) = STOPPED"
    and "attempts (snd (loop ?p (?cs @ [ok_cycle]) s1)) = 40"
    by (simp_all del: loop.simps)
  with s'(1) s1(1) show ?thesis
    by (simp add: keep_publishing_price_feed_def del: loop.simps)
qed

end
